theory Spec2Isabelle
  imports Complex_Main "HOL-Library.Sublist" "HOL-Library.Multiset"
begin

section \<open>Strings as the front end handles them\<close>

text \<open>
  The front end of the style-reference search (\<^verbatim>\<open>static/js/app.js\<close>) works on JavaScript
  strings. They are modelled as \<^typ>\<open>string\<close>, one \<^typ>\<open>char\<close> per code unit, for code units
  below 256. Among these, \<^verbatim>\<open>String.prototype.trim\<close> removes tab, line feed, vertical tab,
  form feed, carriage return, space and no-break space; a regular expression's \<^verbatim>\<open>.\<close> stops
  at line feed and carriage return.
\<close>

definition is_whitespace :: "char \<Rightarrow> bool" where
  "is_whitespace c \<longleftrightarrow>
     c \<in> set [CHR 0x09, CHR 0x0A, CHR 0x0B, CHR 0x0C, CHR 0x0D, CHR 0x20, CHR 0xA0]"

definition is_line_terminator :: "char \<Rightarrow> bool" where
  "is_line_terminator c \<longleftrightarrow> c = CHR 0x0A \<or> c = CHR 0x0D"

definition trim :: "string \<Rightarrow> string" where
  "trim s = rev (dropWhile is_whitespace (rev (dropWhile is_whitespace s)))"

text \<open>A string that is empty or holds whitespace only.\<close>

definition is_blank :: "string \<Rightarrow> bool" where
  "is_blank s = list_all is_whitespace s"

text \<open>\<^verbatim>\<open>s.split(sep)\<close> for a one-character separator: never empty, \<^verbatim>\<open>"".split(",")\<close> is \<^verbatim>\<open>[""]\<close>.\<close>

fun js_split :: "char \<Rightarrow> string \<Rightarrow> string list" where
  "js_split sep [] = [[]]"
| "js_split sep (c # cs) =
     (if c = sep then [] # js_split sep cs
      else (case js_split sep cs of
              [] \<Rightarrow> [[c]]
            | w # ws \<Rightarrow> (c # w) # ws))"

text \<open>
  \<^verbatim>\<open>xs.slice(start, end)\<close>: a negative index counts from the end, both indices are clamped
  to the length, and an empty range gives the empty array.
\<close>

definition js_slice :: "'a list \<Rightarrow> int \<Rightarrow> int \<Rightarrow> 'a list" where
  "js_slice xs start end =
     (let len = int (length xs);
          k = (if start < 0 then max (len + start) 0 else min start len);
          final = (if end < 0 then max (len + end) 0 else min end len)
      in take (nat (final - k)) (drop (nat k) xs))"

section \<open>Tags of a result card: \<^verbatim>\<open>extractTags\<close>\<close>

definition key_themes_label :: string where
  "key_themes_label = ''Key themes: ''"

text \<open>The text captured by \<^verbatim>\<open>(.+)\<close>: the longest run of characters up to a line terminator.\<close>

definition capture_line :: "string \<Rightarrow> string" where
  "capture_line s = takeWhile (\<lambda>x. \<not> is_line_terminator x) s"

text \<open>
  \<^verbatim>\<open>summary.match(/Key themes: (.+)/)\<close>: the leftmost position where the label is followed
  by at least one character of the same line; the result is the capture group, \<open>None\<close> for
  \<^verbatim>\<open>null\<close>.
\<close>

fun match_key_themes :: "string \<Rightarrow> string option" where
  "match_key_themes [] = None"
| "match_key_themes (c # cs) =
     (if prefix key_themes_label (c # cs)
         \<and> capture_line (drop (length key_themes_label) (c # cs)) \<noteq> []
      then Some (capture_line (drop (length key_themes_label) (c # cs)))
      else match_key_themes cs)"

definition extractTags :: "string \<Rightarrow> string list" where
  "extractTags summary =
     (case match_key_themes summary of
        Some m1 \<Rightarrow>
          take 5 (filter (\<lambda>tag. 2 < length tag)
            (map (\<lambda>tag. hd (js_split CHR '' '' (trim tag))) (js_split CHR '','' m1)))
      | None \<Rightarrow> [''visual'', ''style''])"

text \<open>The documented summary format: the terms joined by a comma and a space.\<close>

fun join_terms :: "string list \<Rightarrow> string" where
  "join_terms [] = []"
| "join_terms [t] = t"
| "join_terms (t # u # ts) = t @ '', '' @ join_terms (u # ts)"

text \<open>\<open>occurs pat s\<close>: the string \<open>pat\<close> is a contiguous part of \<open>s\<close>.\<close>

fun occurs :: "string \<Rightarrow> string \<Rightarrow> bool" where
  "occurs pat [] = (pat = [])"
| "occurs pat (c # cs) = (prefix pat (c # cs) \<or> occurs pat cs)"

text \<open>
  The first word of a segment when words are separated by any whitespace character, for
  comparison with what \<^verbatim>\<open>split(" ")[0]\<close> returns.
\<close>

definition first_whitespace_word :: "string \<Rightarrow> string" where
  "first_whitespace_word seg =
     takeWhile (\<lambda>c. \<not> is_whitespace c) (dropWhile is_whitespace seg)"

section \<open>The state of the search page\<close>

text \<open>One result as the server sends it and the cards show it.\<close>

record result =
  sref_code :: string
  similarity :: real
  summary :: string
  thumbnails :: "string list"

text \<open>The value of the \<^verbatim>\<open>tags\<close> field of a reply: an array of strings, or anything else.\<close>

datatype tags_value = NotAnArray | TagArray "string list"

text \<open>
  The parsed body of a reply. The fields follow the interface of the three endpoints; a
  string field that is absent is the empty string, which \<^verbatim>\<open>||\<close> treats like
  \<^verbatim>\<open>undefined\<close>.
\<close>

record reply_body =
  error :: string
  query :: string
  reference_sref :: string
  results :: "result list"
  tags :: tags_value

text \<open>
  What \<^verbatim>\<open>await fetch(...)\<close> followed by \<^verbatim>\<open>await response.json()\<close> yields: the request is
  rejected, the body is not JSON (both with the message of the error thrown), or a reply
  with its \<^verbatim>\<open>ok\<close> flag and parsed body.
\<close>

datatype fetch_outcome =
  NetworkFailure string
| InvalidJson string
| Response bool reply_body

datatype request = SearchRequest string | SimilarRequest string | TagsRequest

text \<open>
  The fields of \<^verbatim>\<open>SREFSearch\<close> and the parts of the page it writes. \<open>requests\<close> is the
  sequence of \<^verbatim>\<open>fetch\<close> calls issued so far. \<open>paginationInfo\<close> holds the two numbers of the
  text \<^verbatim>\<open>Page x of y\<close>. The carousel timers are left out.
\<close>

record SREFSearch =
  searchInput :: string
  errorText :: string
  errorHidden :: bool
  loadingHidden :: bool
  resultsHidden :: bool
  resultsTitle :: string
  noResultsShown :: bool
  paginationHidden :: bool
  prevDisabled :: bool
  nextDisabled :: bool
  paginationInfo :: "int \<times> int"
  currentPage :: int
  resultsPerPage :: int
  allResults :: "result list"
  currentResults :: "result list"
  availableTags :: "string list"
  displayedTags :: "string list"
  requests :: "request list"

text \<open>The constructor, applied to the page as loaded; it ends by starting \<^verbatim>\<open>loadTags\<close>.\<close>

definition constructor :: "SREFSearch \<Rightarrow> SREFSearch" where
  "constructor page =
     page\<lparr>currentPage := 1, resultsPerPage := 9, allResults := [], currentResults := [],
          availableTags := [], displayedTags := [], requests := [TagsRequest]\<rparr>"

definition showLoading :: "SREFSearch \<Rightarrow> SREFSearch" where
  "showLoading s = s\<lparr>loadingHidden := False\<rparr>"

definition hideLoading :: "SREFSearch \<Rightarrow> SREFSearch" where
  "hideLoading s = s\<lparr>loadingHidden := True\<rparr>"

definition showResults :: "SREFSearch \<Rightarrow> SREFSearch" where
  "showResults s = s\<lparr>resultsHidden := False\<rparr>"

definition hideResults :: "SREFSearch \<Rightarrow> SREFSearch" where
  "hideResults s = s\<lparr>resultsHidden := True\<rparr>"

definition showError :: "string \<Rightarrow> SREFSearch \<Rightarrow> SREFSearch" where
  "showError message s = s\<lparr>errorText := message, errorHidden := False\<rparr>"

definition hideError :: "SREFSearch \<Rightarrow> SREFSearch" where
  "hideError s = s\<lparr>errorHidden := True\<rparr>"

subsection \<open>Pagination\<close>

text \<open>
  \<^verbatim>\<open>Math.ceil(this.allResults.length / this.resultsPerPage)\<close>, for the page size the
  constructor sets; no statement of the page writes \<^verbatim>\<open>resultsPerPage\<close> again, so the divisor
  is never zero.
\<close>

definition totalPages :: "SREFSearch \<Rightarrow> int" where
  "totalPages s = \<lceil>real (length (allResults s)) / real_of_int (resultsPerPage s)\<rceil>"

definition displayCurrentPage :: "SREFSearch \<Rightarrow> SREFSearch" where
  "displayCurrentPage s =
     (let startIndex = (currentPage s - 1) * resultsPerPage s;
          endIndex = startIndex + resultsPerPage s
      in s\<lparr>noResultsShown := False,
            currentResults := js_slice (allResults s) startIndex endIndex\<rparr>)"

definition updatePagination :: "SREFSearch \<Rightarrow> SREFSearch" where
  "updatePagination s =
     (if totalPages s \<le> 1 then s\<lparr>paginationHidden := True\<rparr>
      else s\<lparr>paginationHidden := False,
             prevDisabled := (currentPage s = 1),
             nextDisabled := (currentPage s = totalPages s),
             paginationInfo := (currentPage s, totalPages s)\<rparr>)"

definition previousPage :: "SREFSearch \<Rightarrow> SREFSearch" where
  "previousPage s =
     (if currentPage s > 1
      then updatePagination (displayCurrentPage (s\<lparr>currentPage := currentPage s - 1\<rparr>))
      else s)"

definition nextPage :: "SREFSearch \<Rightarrow> SREFSearch" where
  "nextPage s =
     (if currentPage s < totalPages s
      then updatePagination (displayCurrentPage (s\<lparr>currentPage := currentPage s + 1\<rparr>))
      else s)"

definition displayResults :: "reply_body \<Rightarrow> SREFSearch \<Rightarrow> SREFSearch" where
  "displayResults data s =
     (let s1 = s\<lparr>resultsTitle := ''Results for '' @ [CHR 0x22] @ query data @ [CHR 0x22]\<rparr>;
          s2 = (if length (allResults s1) = 0 then s1\<lparr>noResultsShown := True\<rparr>
                else displayCurrentPage (updatePagination s1))
      in showResults s2)"

definition displaySimilarResults :: "reply_body \<Rightarrow> SREFSearch \<Rightarrow> SREFSearch" where
  "displaySimilarResults data s =
     (let s1 = s\<lparr>resultsTitle := ''Similar to '' @ reference_sref data\<rparr>;
          s2 = (if length (allResults s1) = 0 then s1\<lparr>noResultsShown := True\<rparr>
                else displayCurrentPage (updatePagination s1))
      in showResults s2)"

subsection \<open>Text search: \<^verbatim>\<open>performSearch\<close>\<close>

text \<open>
  \<^verbatim>\<open>query || this.searchInput.value.trim()\<close>, where \<open>None\<close> stands for a call without an
  argument: an explicit non-empty argument is used as it is, otherwise the trimmed text
  of the search box.
\<close>

definition searchQuery :: "string option \<Rightarrow> SREFSearch \<Rightarrow> string" where
  "searchQuery arg s =
     (case arg of
        Some q \<Rightarrow> if q \<noteq> [] then q else trim (searchInput s)
      | None \<Rightarrow> trim (searchInput s))"

text \<open>
  The part of \<^verbatim>\<open>performSearch\<close> that runs before the first \<^verbatim>\<open>await\<close>: the check of the
  query, and for a non-empty query the request.
\<close>

definition performSearch_begin :: "string option \<Rightarrow> SREFSearch \<Rightarrow> SREFSearch" where
  "performSearch_begin arg s =
     (let q = searchQuery arg s
      in if q = [] then showError ''Please enter a search term'' s
         else (hideResults (hideError (showLoading s)))
                \<lparr>requests := requests s @ [SearchRequest q]\<rparr>)"

text \<open>
  The body of the \<^verbatim>\<open>try\<close> block after the reply arrived; \<open>Inl\<close> carries the message of
  the error thrown.
\<close>

definition performSearch_try :: "fetch_outcome \<Rightarrow> SREFSearch \<Rightarrow> string + SREFSearch" where
  "performSearch_try outcome s =
     (case outcome of
        NetworkFailure m \<Rightarrow> Inl m
      | InvalidJson m \<Rightarrow> Inl m
      | Response ok data \<Rightarrow>
          if \<not> ok then Inl (if error data \<noteq> [] then error data else ''Search failed'')
          else Inr (displayResults data (s\<lparr>allResults := results data, currentPage := 1\<rparr>)))"

text \<open>The rest of \<^verbatim>\<open>performSearch\<close>: \<^verbatim>\<open>try\<close>, \<^verbatim>\<open>catch\<close> and \<^verbatim>\<open>finally\<close>.\<close>

definition performSearch_complete :: "fetch_outcome \<Rightarrow> SREFSearch \<Rightarrow> SREFSearch" where
  "performSearch_complete outcome s =
     hideLoading
       (case performSearch_try outcome s of
          Inr s' \<Rightarrow> s'
        | Inl m \<Rightarrow> showError (''Search failed: '' @ m) s)"

text \<open>A whole call of \<^verbatim>\<open>performSearch\<close>, with the outcome its request meets.\<close>

definition performSearch :: "string option \<Rightarrow> fetch_outcome \<Rightarrow> SREFSearch \<Rightarrow> SREFSearch" where
  "performSearch arg outcome s =
     (if searchQuery arg s = [] then performSearch_begin arg s
      else performSearch_complete outcome (performSearch_begin arg s))"

text \<open>The global functions behind the example tags and the tags of a card.\<close>

definition searchExample_begin :: "string \<Rightarrow> SREFSearch \<Rightarrow> SREFSearch" where
  "searchExample_begin q s = performSearch_begin None (hideError (s\<lparr>searchInput := q\<rparr>))"

definition searchByTag_begin :: "string \<Rightarrow> SREFSearch \<Rightarrow> SREFSearch" where
  "searchByTag_begin tag s = performSearch_begin (Some tag) (hideError (s\<lparr>searchInput := tag\<rparr>))"

subsection \<open>Find similar: \<^verbatim>\<open>findSimilarSREFs\<close>\<close>

definition findSimilarSREFs_begin :: "string \<Rightarrow> SREFSearch \<Rightarrow> SREFSearch" where
  "findSimilarSREFs_begin srefCode s =
     (hideResults (hideError (showLoading s)))
       \<lparr>requests := requests s @ [SimilarRequest srefCode]\<rparr>"

definition findSimilarSREFs_try ::
  "string \<Rightarrow> fetch_outcome \<Rightarrow> SREFSearch \<Rightarrow> string + SREFSearch" where
  "findSimilarSREFs_try srefCode outcome s =
     (case outcome of
        NetworkFailure m \<Rightarrow> Inl m
      | InvalidJson m \<Rightarrow> Inl m
      | Response ok data \<Rightarrow>
          if \<not> ok then Inl (if error data \<noteq> [] then error data else ''Similar search failed'')
          else Inr (displaySimilarResults data
                 (s\<lparr>searchInput := ''Similar to '' @ srefCode,
                    allResults := results data, currentPage := 1\<rparr>)))"

definition findSimilarSREFs_complete ::
  "string \<Rightarrow> fetch_outcome \<Rightarrow> SREFSearch \<Rightarrow> SREFSearch" where
  "findSimilarSREFs_complete srefCode outcome s =
     hideLoading
       (case findSimilarSREFs_try srefCode outcome s of
          Inr s' \<Rightarrow> s'
        | Inl m \<Rightarrow> showError (''Similar search failed: '' @ m) s)"

definition findSimilarSREFs :: "string \<Rightarrow> fetch_outcome \<Rightarrow> SREFSearch \<Rightarrow> SREFSearch" where
  "findSimilarSREFs srefCode outcome s =
     findSimilarSREFs_complete srefCode outcome (findSimilarSREFs_begin srefCode s)"

subsection \<open>Example tags: \<^verbatim>\<open>loadTags\<close>, \<^verbatim>\<open>displayTags\<close>, \<^verbatim>\<open>shuffleExamples\<close>\<close>

definition fallbackTags :: "string list" where
  "fallbackTags =
     [''abstract'', ''art'', ''photorealistic'', ''portrait'', ''minimalist'', ''design'',
      ''nature'', ''landscape'', ''geometric'', ''patterns'', ''colorful'', ''painting'',
      ''dark'', ''moody'', ''atmosphere'']"

definition displayTags :: "SREFSearch \<Rightarrow> SREFSearch" where
  "displayTags s = s\<lparr>displayedTags := js_slice (availableTags s) 0 6\<rparr>"

text \<open>
  The \<^verbatim>\<open>try\<close> block of \<^verbatim>\<open>loadTags\<close>. A \<^verbatim>\<open>tags\<close> field that is not an array makes
  \<^verbatim>\<open>displayTags\<close> throw a \<^verbatim>\<open>TypeError\<close>.
\<close>

definition loadTags_try :: "fetch_outcome \<Rightarrow> SREFSearch \<Rightarrow> string + SREFSearch" where
  "loadTags_try outcome s =
     (case outcome of
        NetworkFailure m \<Rightarrow> Inl m
      | InvalidJson m \<Rightarrow> Inl m
      | Response ok data \<Rightarrow>
          if \<not> ok then Inl (if error data \<noteq> [] then error data else ''Failed to load tags'')
          else (case tags data of
                  NotAnArray \<Rightarrow> Inl ''TypeError''
                | TagArray ts \<Rightarrow> Inr (displayTags (s\<lparr>availableTags := ts\<rparr>))))"

text \<open>\<^verbatim>\<open>loadTags\<close> once its request has met its outcome: the handler installs the fallback.\<close>

definition loadTags :: "fetch_outcome \<Rightarrow> SREFSearch \<Rightarrow> SREFSearch" where
  "loadTags outcome s =
     (case loadTags_try outcome s of
        Inr s' \<Rightarrow> s'
      | Inl m \<Rightarrow> displayTags (s\<lparr>availableTags := fallbackTags\<rparr>))"

text \<open>
  \<^verbatim>\<open>[a[i], a[j]] = [a[j], a[i]]\<close>: both elements are read before either is written.
\<close>

definition swap :: "nat \<Rightarrow> nat \<Rightarrow> 'a list \<Rightarrow> 'a list" where
  "swap i j xs = xs[i := xs ! j, j := xs ! i]"

text \<open>
  The loop \<^verbatim>\<open>for (let i = shuffled.length - 1; i > 0; i--)\<close>. \<open>rnd k\<close> is the value of
  the call number \<open>k\<close> of \<^verbatim>\<open>Math.random()\<close>, a number from 0 up to but not including 1,
  and \<open>k\<close> counts the calls made so far.
\<close>

fun shuffle_loop :: "(nat \<Rightarrow> real) \<Rightarrow> nat \<Rightarrow> nat \<Rightarrow> 'a list \<Rightarrow> 'a list" where
  "shuffle_loop rnd k 0 xs = xs"
| "shuffle_loop rnd k (Suc i) xs =
     (let j = nat \<lfloor>rnd k * real (Suc i + 1)\<rfloor>
      in shuffle_loop rnd (Suc k) i (swap (Suc i) j xs))"

definition random_in_range :: "(nat \<Rightarrow> real) \<Rightarrow> bool" where
  "random_in_range rnd \<longleftrightarrow> (\<forall>k. 0 \<le> rnd k \<and> rnd k < 1)"

definition shuffleExamples :: "(nat \<Rightarrow> real) \<Rightarrow> SREFSearch \<Rightarrow> SREFSearch" where
  "shuffleExamples rnd s =
     (if length (availableTags s) = 0 then s
      else s\<lparr>displayedTags :=
               js_slice (shuffle_loop rnd 0 (length (availableTags s) - 1) (availableTags s)) 0 6\<rparr>)"

subsection \<open>The states the page can reach\<close>

text \<open>
  Every handler runs to its next \<^verbatim>\<open>await\<close> before another one starts, so a run of the page
  is a sequence of these steps. A reply may arrive at any time and with any content.
\<close>

inductive reachable :: "SREFSearch \<Rightarrow> bool" where
  start: "reachable (constructor page)"
| typing: "reachable s \<Longrightarrow> reachable (s\<lparr>searchInput := text\<rparr>)"
| focus: "reachable s \<Longrightarrow> reachable (hideError s)"
| tags_reply: "reachable s \<Longrightarrow> reachable (loadTags outcome s)"
| shuffle: "reachable s \<Longrightarrow> random_in_range rnd \<Longrightarrow> reachable (shuffleExamples rnd s)"
| search: "reachable s \<Longrightarrow> reachable (performSearch_begin arg s)"
| search_reply: "reachable s \<Longrightarrow> reachable (performSearch_complete outcome s)"
| example: "reachable s \<Longrightarrow> reachable (searchExample_begin q s)"
| tag: "reachable s \<Longrightarrow> reachable (searchByTag_begin t s)"
| similar: "reachable s \<Longrightarrow> reachable (findSimilarSREFs_begin code s)"
| similar_reply: "reachable s \<Longrightarrow> reachable (findSimilarSREFs_complete code outcome s)"
| previous: "reachable s \<Longrightarrow> reachable (previousPage s)"
| "next": "reachable s \<Longrightarrow> reachable (nextPage s)"

text \<open>
  The pagination invariant: the page size is the constructor's, and while there are
  results the current page is one of the pages and the controls are hidden exactly when
  there is a single page.
\<close>

definition pagination_ok :: "SREFSearch \<Rightarrow> bool" where
  "pagination_ok s \<longleftrightarrow>
     resultsPerPage s = 9 \<and>
     (allResults s \<noteq> [] \<longrightarrow>
        1 \<le> currentPage s \<and> currentPage s \<le> totalPages s \<and>
        (paginationHidden s \<longleftrightarrow> totalPages s \<le> 1))"

section \<open>The search service behind the endpoints\<close>

text \<open>
  The page only calls the service (\<^verbatim>\<open>/search\<close>, \<^verbatim>\<open>/similar\<close>, \<^verbatim>\<open>/tags\<close>); the service
  itself is described by the specification. Its entries, scoring, ranking and
  find-similar operation are modelled from that description, over the real numbers the
  data model prescribes for embeddings and scores.
\<close>

text \<open>Modelled from the spec: the \<^verbatim>\<open>StyleEntry\<close> of the embedding store (section 3).\<close>

record StyleEntry =
  code :: string
  embedding :: "real list"
  entry_summary :: string
  entry_thumbnails :: "string list"

text \<open>Modelled from the spec: the failures the service can report (section 7).\<close>

datatype service_error = DivisionByZero | EmptyQueryError | NotFoundError

text \<open>Modelled from the spec: division as the scoring uses it; a zero divisor is a failure.\<close>

definition divide_checked :: "real \<Rightarrow> real \<Rightarrow> service_error + real" where
  "divide_checked x y = (if y = 0 then Inl DivisionByZero else Inr (x / y))"

text \<open>Modelled from the spec: the dot product of two vectors (glossary, cosine similarity).\<close>

definition dot :: "real list \<Rightarrow> real list \<Rightarrow> real" where
  "dot a b = sum_list (map (\<lambda>(x, y). x * y) (zip a b))"

text \<open>Modelled from the spec: the magnitude of a vector (glossary, cosine similarity).\<close>

definition magnitude :: "real list \<Rightarrow> real" where
  "magnitude v = sqrt (dot v v)"

text \<open>
  Modelled from the spec: the score of the similarity ranker (section 4.2), the dot product
  divided by the product of the magnitudes, and zero when either magnitude is zero.
\<close>

definition cosine_similarity :: "real list \<Rightarrow> real list \<Rightarrow> service_error + real" where
  "cosine_similarity a b =
     (if magnitude a = 0 \<or> magnitude b = 0 then Inr 0
      else divide_checked (dot a b) (magnitude a * magnitude b))"

text \<open>
  Modelled from the spec: scoring every entry of a sequence in its order (section 4.2); a
  failed score fails the whole ranking.
\<close>

fun score_entries :: "real list \<Rightarrow> StyleEntry list \<Rightarrow> service_error + (string \<times> real) list" where
  "score_entries q [] = Inr []"
| "score_entries q (e # es) =
     (case cosine_similarity q (embedding e) of
        Inl err \<Rightarrow> Inl err
      | Inr sc \<Rightarrow>
          (case score_entries q es of
             Inl err \<Rightarrow> Inl err
           | Inr rest \<Rightarrow> Inr ((code e, sc) # rest)))"

text \<open>
  Modelled from the spec: \<^verbatim>\<open>rank(query_vector, store, exclude)\<close> of section 4.2. The
  excluded code is dropped first; the scored entries are then sorted by descending score
  with a stable sort (insertion into the sorted rest, in front of equal scores).
\<close>

definition rank ::
  "real list \<Rightarrow> StyleEntry list \<Rightarrow> string option \<Rightarrow> service_error + (string \<times> real) list" where
  "rank query_vector store exclude =
     (case score_entries query_vector (filter (\<lambda>e. Some (code e) \<noteq> exclude) store) of
        Inl err \<Rightarrow> Inl err
      | Inr scored \<Rightarrow> Inr (sort_key (\<lambda>p. - snd p) scored))"

text \<open>Modelled from the spec: \<^verbatim>\<open>get(code)\<close> of the embedding store (section 4.1).\<close>

definition get :: "StyleEntry list \<Rightarrow> string \<Rightarrow> service_error + StyleEntry" where
  "get store c =
     (case find (\<lambda>e. code e = c) store of
        None \<Rightarrow> Inl NotFoundError
      | Some e \<Rightarrow> Inr e)"

text \<open>
  Modelled from the spec: packaging a ranked code with its score, summary and thumbnails
  (section 4.3).
\<close>

definition package :: "StyleEntry list \<Rightarrow> string \<times> real \<Rightarrow> result option" where
  "package store p =
     (case get store (fst p) of
        Inl err \<Rightarrow> None
      | Inr e \<Rightarrow> Some \<lparr>sref_code = fst p, similarity = snd p,
                       summary = entry_summary e, thumbnails = entry_thumbnails e\<rparr>)"

text \<open>
  Modelled from the spec: \<^verbatim>\<open>search_by_code(reference_code)\<close> of section 4.3, which ranks
  against the reference entry's own embedding with the reference excluded.
\<close>

definition search_by_code :: "StyleEntry list \<Rightarrow> string \<Rightarrow> service_error + result list" where
  "search_by_code store reference_code =
     (case get store reference_code of
        Inl err \<Rightarrow> Inl err
      | Inr e \<Rightarrow>
          (case rank (embedding e) store (Some reference_code) of
             Inl err \<Rightarrow> Inl err
           | Inr ranked \<Rightarrow> Inr (List.map_filter (package store) ranked)))"

text \<open>
  Modelled from the spec: the reply of the similar-to-code endpoint (section 6), the
  reference echoed with the results, or a client-visible failure.
\<close>

definition similar_reply :: "StyleEntry list \<Rightarrow> string \<Rightarrow> fetch_outcome" where
  "similar_reply store reference_code =
     (case search_by_code store reference_code of
        Inl err \<Rightarrow>
          Response False \<lparr>error = ''SREF not found'', query = [], reference_sref = reference_code,
                          results = [], tags = NotAnArray\<rparr>
      | Inr rs \<Rightarrow>
          Response True \<lparr>error = [], query = [], reference_sref = reference_code,
                         results = rs, tags = NotAnArray\<rparr>)"

section \<open>Example data\<close>

text \<open>A page as loaded, a result with a given code, and the store of three entries of the
  specification's scenarios (section 8).\<close>

definition page0 :: SREFSearch where
  "page0 = \<lparr>searchInput = [], errorText = [], errorHidden = True, loadingHidden = True,
            resultsHidden = True, resultsTitle = [], noResultsShown = False,
            paginationHidden = True, prevDisabled = False, nextDisabled = False,
            paginationInfo = (0, 0), currentPage = 0, resultsPerPage = 0, allResults = [],
            currentResults = [], availableTags = [], displayedTags = [], requests = []\<rparr>"

definition result_of :: "string \<Rightarrow> result" where
  "result_of c = \<lparr>sref_code = c, similarity = 0, summary = ''Key themes: sky (2)'',
                  thumbnails = []\<rparr>"

definition eleven_results :: "result list" where
  "eleven_results =
     map result_of [''01'', ''02'', ''03'', ''04'', ''05'', ''06'', ''07'', ''08'', ''09'',
                    ''10'', ''11'']"

definition reply_with :: "result list \<Rightarrow> fetch_outcome" where
  "reply_with rs =
     Response True \<lparr>error = [], query = ''sky'', reference_sref = [], results = rs,
                    tags = NotAnArray\<rparr>"

definition tags_reply_with :: "string list \<Rightarrow> fetch_outcome" where
  "tags_reply_with ts =
     Response True \<lparr>error = [], query = [], reference_sref = [], results = [],
                    tags = TagArray ts\<rparr>"

definition entry_A :: StyleEntry where
  "entry_A = \<lparr>code = ''A'', embedding = [1, 0], entry_summary = ''Key themes: sky (2)'',
              entry_thumbnails = [''a1.png'']\<rparr>"

definition entry_B :: StyleEntry where
  "entry_B = \<lparr>code = ''B'', embedding = [0, 1], entry_summary = ''Key themes: sea (2)'',
              entry_thumbnails = []\<rparr>"

definition entry_C :: StyleEntry where
  "entry_C = \<lparr>code = ''C'', embedding = [1, 1], entry_summary = ''Key themes: sun (2)'',
              entry_thumbnails = [''c1.png'', ''c2.png'']\<rparr>"

text \<open>The page after a search with eleven results and one click on the next-page button.\<close>

definition state_page_two :: SREFSearch where
  "state_page_two =
     nextPage (performSearch_complete (reply_with eleven_results)
       (performSearch_begin (Some ''sky'') (constructor page0)))"

text \<open>The page after the tag list arrived with four tags, and a run of \<^verbatim>\<open>Math.random\<close>.\<close>

definition state_four_tags :: SREFSearch where
  "state_four_tags =
     loadTags (tags_reply_with [''sky'', ''sea'', ''sun'', ''ice'']) (constructor page0)"

definition always_half :: "nat \<Rightarrow> real" where
  "always_half k = 1 / 2"

definition store_abc :: "StyleEntry list" where
  "store_abc = [entry_A, entry_B, entry_C]"

section \<open>Properties of \<^verbatim>\<open>extractTags\<close>\<close>

lemma js_split_not_Nil: "js_split sep s \<noteq> []"
  by (induction s) (auto split: list.splits)

lemma hd_js_split: "hd (js_split sep s) = takeWhile (\<lambda>c. c \<noteq> sep) s"
  by (induction s) (auto simp: js_split_not_Nil split: list.splits)

lemma js_split_no_sep: "sep \<notin> set t \<Longrightarrow> js_split sep t = [t]"
  by (induction t) auto

lemma js_split_append_sep:
  "sep \<notin> set t \<Longrightarrow> js_split sep (t @ sep # rest) = t # js_split sep rest"
  by (induction t) auto

lemma trim_leading_space: "trim (CHR '' '' # t) = trim t"
  by (simp add: trim_def is_whitespace_def)

lemma js_split_join_terms:
  "ts \<noteq> [] \<Longrightarrow> \<forall>t\<in>set ts. CHR '','' \<notin> set t \<Longrightarrow>
   js_split CHR '','' (join_terms ts) = hd ts # map (\<lambda>t. CHR '' '' # t) (tl ts)"
proof (induction ts rule: join_terms.induct)
  case 1
  then show ?case by simp
next
  case (2 t)
  then show ?case by (simp add: js_split_no_sep)
next
  case (3 t u ts)
  have "js_split CHR '','' (t @ CHR '','' # CHR '' '' # join_terms (u # ts))
        = t # js_split CHR '','' (CHR '' '' # join_terms (u # ts))"
    using 3 by (intro js_split_append_sep) simp
  moreover have "js_split CHR '','' (join_terms (u # ts)) = u # map (\<lambda>t. CHR '' '' # t) ts"
    using 3 by simp
  ultimately show ?case by simp
qed

lemma first_words_join_terms:
  assumes "ts \<noteq> []" and "\<forall>t\<in>set ts. CHR '','' \<notin> set t"
  shows "map (\<lambda>tag. hd (js_split CHR '' '' (trim tag))) (js_split CHR '','' (join_terms ts))
         = map (\<lambda>t. takeWhile (\<lambda>c. c \<noteq> CHR '' '') (trim t)) ts"
proof -
  from assms(1) obtain t rest where ts: "ts = t # rest" by (cases ts) auto
  have "js_split CHR '','' (join_terms ts) = t # map (\<lambda>t. CHR '' '' # t) rest"
    using js_split_join_terms[OF assms] by (simp add: ts)
  then show ?thesis
    by (simp add: ts hd_js_split trim_leading_space comp_def)
qed

lemma match_key_themes_prefix:
  "prefix key_themes_label s \<Longrightarrow> capture_line (drop (length key_themes_label) s) \<noteq> [] \<Longrightarrow>
   match_key_themes s = Some (capture_line (drop (length key_themes_label) s))"
  by (cases s) (simp_all add: capture_line_def)

lemma match_key_themes_label:
  assumes "body \<noteq> []" and "\<forall>c\<in>set body. \<not> is_line_terminator c"
  shows "match_key_themes (key_themes_label @ body) = Some body"
proof -
  have tw: "capture_line body = body"
    using assms(2) by (simp add: capture_line_def)
  show ?thesis
    using match_key_themes_prefix[of "key_themes_label @ body"] tw assms(1) by simp
qed

lemma join_terms_chars:
  "c \<in> set (join_terms ts) \<Longrightarrow> c = CHR '','' \<or> c = CHR '' '' \<or> (\<exists>t\<in>set ts. c \<in> set t)"
  by (induction ts rule: join_terms.induct) auto

lemma match_key_themes_not_occurs:
  "\<not> occurs key_themes_label s \<Longrightarrow> match_key_themes s = None"
  by (induction s) simp_all

lemma occurs_iff: "occurs pat s \<longleftrightarrow> (\<exists>pre post. s = pre @ pat @ post)"
proof (induction s)
  case Nil
  show ?case by simp
next
  case (Cons c cs)
  show ?case
  proof
    assume "occurs pat (c # cs)"
    then consider "prefix pat (c # cs)" | "occurs pat cs" by auto
    then show "\<exists>pre post. c # cs = pre @ pat @ post"
    proof cases
      case 1
      then obtain post where "c # cs = pat @ post" by (rule prefixE)
      then have "c # cs = [] @ pat @ post" by simp
      then show ?thesis by (intro exI)
    next
      case 2
      then obtain pre post where "cs = pre @ pat @ post" using Cons.IH by auto
      then have "c # cs = (c # pre) @ pat @ post" by simp
      then show ?thesis by (intro exI)
    qed
  next
    assume "\<exists>pre post. c # cs = pre @ pat @ post"
    then obtain pre post where eq: "c # cs = pre @ pat @ post" by auto
    show "occurs pat (c # cs)"
    proof (cases pre)
      case Nil
      then have "prefix pat (c # cs)" using eq by (intro prefixI[of _ _ post]) simp
      then show ?thesis by simp
    next
      case (Cons p ps)
      then have "cs = ps @ pat @ post" using eq by simp
      then have "\<exists>pre post. cs = pre @ pat @ post" by (intro exI)
      then have "occurs pat cs" using Cons.IH by simp
      then show ?thesis by simp
    qed
  qed
qed

text \<open>
  Claim C7, as the code has it. For a summary in the documented format, the label followed
  by terms joined with a comma and a space, \<^verbatim>\<open>extractTags\<close> does not return the terms
  themselves: it returns, in order, the text before the first space of each trimmed term,
  keeps only those longer than two characters, and stops after five.
\<close>

theorem extractTags_documented_format:
  assumes "join_terms ts \<noteq> []"
    and "\<forall>t\<in>set ts. CHR '','' \<notin> set t \<and> (\<forall>c\<in>set t. \<not> is_line_terminator c)"
  shows "extractTags (key_themes_label @ join_terms ts) =
         take 5 (filter (\<lambda>w. 2 < length w)
           (map (\<lambda>t. takeWhile (\<lambda>c. c \<noteq> CHR '' '') (trim t)) ts))"
proof -
  have ne: "ts \<noteq> []" using assms(1) by auto
  have commas: "\<forall>t\<in>set ts. CHR '','' \<notin> set t" using assms(2) by simp
  have "\<not> is_line_terminator c" if "c \<in> set (join_terms ts)" for c
  proof -
    from join_terms_chars[OF that]
    consider "c = CHR '',''" | "c = CHR '' ''" | t where "t \<in> set ts" "c \<in> set t"
      by blast
    then show ?thesis
    proof cases
      case 1
      then show ?thesis by (simp add: is_line_terminator_def)
    next
      case 2
      then show ?thesis by (simp add: is_line_terminator_def)
    next
      case 3
      then show ?thesis using assms(2) by blast
    qed
  qed
  then have "\<forall>c\<in>set (join_terms ts). \<not> is_line_terminator c" by blast
  with assms(1) have m: "match_key_themes (key_themes_label @ join_terms ts) = Some (join_terms ts)"
    by (rule match_key_themes_label)
  show ?thesis
    by (simp only: extractTags_def m option.case first_words_join_terms[OF ne commas])
qed

text \<open>
  Claim C9, as the code has it. For every summary, \<^verbatim>\<open>extractTags\<close> returns at most five
  tags, each longer than two characters. When the pattern matches, each tag is the text
  before the first space character of its trimmed comma-separated segment; when the
  summary does not contain the label, the result is the default list.
\<close>

theorem extractTags_shape:
  "length (extractTags s) \<le> 5
   \<and> (\<forall>t\<in>set (extractTags s). 2 < length t)
   \<and> (case match_key_themes s of
        None \<Rightarrow> extractTags s = [''visual'', ''style'']
      | Some m1 \<Rightarrow> \<forall>t\<in>set (extractTags s). \<exists>seg\<in>set (js_split CHR '','' m1).
                    t = takeWhile (\<lambda>c. c \<noteq> CHR '' '') (trim seg))
   \<and> (\<not> occurs key_themes_label s \<longrightarrow> extractTags s = [''visual'', ''style''])"
proof (cases "match_key_themes s")
  case None
  then show ?thesis by (simp add: extractTags_def)
next
  case (Some m1)
  have occ: "occurs key_themes_label s"
    using Some match_key_themes_not_occurs[of s] by auto
  have sub: "set (extractTags s)
      \<subseteq> {t \<in> (\<lambda>tag. hd (js_split CHR '' '' (trim tag))) ` set (js_split CHR '','' m1). 2 < length t}"
    unfolding extractTags_def Some using set_take_subset by fastforce
  have len: "length (extractTags s) \<le> 5"
    by (simp add: extractTags_def Some)
  from sub have long: "\<forall>t\<in>set (extractTags s). 2 < length t" by auto
  from sub have seg: "\<forall>t\<in>set (extractTags s). \<exists>seg\<in>set (js_split CHR '','' m1).
                    t = takeWhile (\<lambda>c. c \<noteq> CHR '' '') (trim seg)"
    by (auto simp: hd_js_split)
  show ?thesis using len long seg occ by (simp add: Some)
qed

theorem extractTags_documented_format_witness:
  "extractTags (key_themes_label @ join_terms [''oil painting (3)'', ''sky (2)'', ''ab'', ''sea''])
     = [''oil'', ''sky'', ''sea'']"
  using extractTags_documented_format[of "[''oil painting (3)'', ''sky (2)'', ''ab'', ''sea'']"]
  by (simp add: trim_def is_whitespace_def is_line_terminator_def)

text \<open>
  Claim C7 as stated fails: the two terms of this summary are \<open>oil painting\<close> and \<open>sky\<close>,
  and the tags are \<open>oil\<close> and \<open>sky\<close>.
\<close>

theorem extractTags_not_plain_split:
  "extractTags (key_themes_label @ join_terms [''oil painting'', ''sky'']) = [''oil'', ''sky'']
   \<and> extractTags (key_themes_label @ join_terms [''oil painting'', ''sky''])
       \<noteq> [''oil painting'', ''sky'']"
  by (simp add: extractTags_def trim_def is_whitespace_def is_line_terminator_def
      key_themes_label_def capture_line_def)

theorem extractTags_shape_witness:
  "extractTags ''Summary. Key themes: oil painting (3), sky (2), ab, sea''
     = [''oil'', ''sky'', ''sea'']
   \<and> match_key_themes ''Summary. Key themes: oil painting (3), sky (2), ab, sea''
       = Some ''oil painting (3), sky (2), ab, sea''
   \<and> \<not> occurs key_themes_label ''watercolour landscape''
   \<and> extractTags ''watercolour landscape'' = [''visual'', ''style'']"
  using extractTags_shape[of "''Summary. Key themes: oil painting (3), sky (2), ab, sea''"]
        extractTags_shape[of "''watercolour landscape''"]
  by (simp add: extractTags_def trim_def is_whitespace_def is_line_terminator_def
      key_themes_label_def capture_line_def)

text \<open>
  Claim C9 as stated fails where a segment holds whitespace other than a space: a tab
  does not end the tag, so the tag is not the first whitespace-separated word.
\<close>

theorem extractTags_tab_inside_word:
  "extractTags (''Key themes: oil'' @ [CHR 0x09] @ ''paint'') = [''oil'' @ [CHR 0x09] @ ''paint'']
   \<and> first_whitespace_word (''oil'' @ [CHR 0x09] @ ''paint'') = ''oil''"
  by (simp add: extractTags_def trim_def is_whitespace_def is_line_terminator_def
      key_themes_label_def capture_line_def first_whitespace_word_def)

section \<open>Pagination\<close>

lemmas page_defs =
  showLoading_def hideLoading_def showResults_def hideResults_def showError_def hideError_def
  displayCurrentPage_def updatePagination_def previousPage_def nextPage_def
  displayResults_def displaySimilarResults_def

lemmas search_defs =
  performSearch_begin_def performSearch_try_def performSearch_complete_def
  searchExample_begin_def searchByTag_begin_def
  findSimilarSREFs_begin_def findSimilarSREFs_try_def findSimilarSREFs_complete_def

lemma js_slice_nonneg:
  "0 \<le> start \<Longrightarrow> 0 \<le> end' \<Longrightarrow>
   js_slice xs start end' = take (nat (end' - start)) (drop (nat start) xs)"
  by (auto simp: js_slice_def Let_def min_def)

lemma set_js_slice: "set (js_slice xs start end') \<subseteq> set xs"
proof -
  have "set (take n (drop m xs)) \<subseteq> set xs" for n m
    using set_take_subset[of n "drop m xs"] set_drop_subset[of m xs] by blast
  then show ?thesis by (simp add: js_slice_def Let_def)
qed

lemma take_drop_nth:
  "take n (drop m xs) = map ((!) xs) [m ..< min (m + n) (length xs)]"
  by (rule nth_equalityI) auto

lemma ceiling_ninths: "\<lceil>real n / 9\<rceil> = (int n + 8) div 9"
proof -
  have "\<lceil>real n / 9\<rceil> = \<lceil>of_int (int n) / (of_int 9 :: real)\<rceil>" by simp
  also have "\<dots> = - (- int n div 9)" by (rule ceiling_divide_eq_div)
  also have "\<dots> = (int n + 8) div 9" by presburger
  finally show ?thesis .
qed

lemma totalPages_nine:
  "resultsPerPage s = 9 \<Longrightarrow> totalPages s = (int (length (allResults s)) + 8) div 9"
  by (simp add: totalPages_def ceiling_ninths)

lemma page_end_index: "1 \<le> (p::int) \<Longrightarrow> nat ((p - 1) * 9) + 9 = nat (p * 9)"
  by (simp add: nat_eq_iff algebra_simps)

lemma page_start_bound: "(9 * p - 9 < (m::int)) \<longleftrightarrow> p \<le> (m + 8) div 9"
  by presburger

lemma page_nonempty_iff:
  "1 \<le> (p::int) \<Longrightarrow> nat ((p - 1) * 9) < n \<longleftrightarrow> p \<le> (int n + 8) div 9"
proof -
  assume "1 \<le> p"
  then have "nat ((p - 1) * 9) < n \<longleftrightarrow> 9 * p - 9 < int n"
    by (simp add: nat_less_iff algebra_simps)
  then show ?thesis by (simp only: page_start_bound)
qed

lemma totalPages_pos: "resultsPerPage s = 9 \<Longrightarrow> allResults s \<noteq> [] \<Longrightarrow> 1 \<le> totalPages s"
proof -
  assume a: "resultsPerPage s = 9" "allResults s \<noteq> []"
  then have "(9::int) \<le> int (length (allResults s)) + 8" by (cases "allResults s") auto
  then have "0 < (int (length (allResults s)) + 8) div 9"
    by (simp add: pos_imp_zdiv_pos_iff)
  then show ?thesis using a(1) by (simp add: totalPages_nine)
qed

lemma totalPages_cong:
  "resultsPerPage t = resultsPerPage s \<Longrightarrow> allResults t = allResults s \<Longrightarrow>
   totalPages t = totalPages s"
  by (simp add: totalPages_def)

lemma totalPages_update [simp]:
  "totalPages (s\<lparr>searchInput := x0\<rparr>) = totalPages s"
  "totalPages (s\<lparr>errorText := x1\<rparr>) = totalPages s"
  "totalPages (s\<lparr>errorHidden := x2\<rparr>) = totalPages s"
  "totalPages (s\<lparr>loadingHidden := x3\<rparr>) = totalPages s"
  "totalPages (s\<lparr>resultsHidden := x4\<rparr>) = totalPages s"
  "totalPages (s\<lparr>resultsTitle := x5\<rparr>) = totalPages s"
  "totalPages (s\<lparr>noResultsShown := x6\<rparr>) = totalPages s"
  "totalPages (s\<lparr>paginationHidden := x7\<rparr>) = totalPages s"
  "totalPages (s\<lparr>prevDisabled := x8\<rparr>) = totalPages s"
  "totalPages (s\<lparr>nextDisabled := x9\<rparr>) = totalPages s"
  "totalPages (s\<lparr>paginationInfo := x10\<rparr>) = totalPages s"
  "totalPages (s\<lparr>currentPage := x11\<rparr>) = totalPages s"
  "totalPages (s\<lparr>currentResults := x12\<rparr>) = totalPages s"
  "totalPages (s\<lparr>availableTags := x13\<rparr>) = totalPages s"
  "totalPages (s\<lparr>displayedTags := x14\<rparr>) = totalPages s"
  "totalPages (s\<lparr>requests := x15\<rparr>) = totalPages s"
  by (simp_all add: totalPages_def)

lemma totalPages_updatePagination [simp]: "totalPages (updatePagination s) = totalPages s"
  by (simp add: updatePagination_def)

lemma totalPages_displayCurrentPage [simp]: "totalPages (displayCurrentPage s) = totalPages s"
  by (simp add: displayCurrentPage_def Let_def)

lemma pagination_ok_display:
  "resultsPerPage s = 9 \<Longrightarrow> allResults s \<noteq> [] \<Longrightarrow> 1 \<le> currentPage s \<Longrightarrow>
   currentPage s \<le> totalPages s \<Longrightarrow> pagination_ok (updatePagination (displayCurrentPage s))"
  unfolding pagination_ok_def
  by (simp add: updatePagination_def) (simp add: displayCurrentPage_def Let_def)

lemma pagination_ok_display':
  "resultsPerPage s = 9 \<Longrightarrow> allResults s \<noteq> [] \<Longrightarrow> 1 \<le> currentPage s \<Longrightarrow>
   currentPage s \<le> totalPages s \<Longrightarrow> pagination_ok (displayCurrentPage (updatePagination s))"
  unfolding pagination_ok_def
  by (simp add: displayCurrentPage_def Let_def) (simp add: updatePagination_def)

lemma pagination_ok_previousPage: "pagination_ok s \<Longrightarrow> pagination_ok (previousPage s)"
proof (cases "1 < currentPage s \<and> allResults s \<noteq> []")
  case True
  assume ok: "pagination_ok s"
  let ?t = "s\<lparr>currentPage := currentPage s - 1\<rparr>"
  have "pagination_ok (updatePagination (displayCurrentPage ?t))"
    using ok True by (intro pagination_ok_display) (auto simp: pagination_ok_def)
  then show ?thesis using True by (simp add: previousPage_def)
next
  case False
  assume ok: "pagination_ok s"
  then show ?thesis using False
    by (auto simp: previousPage_def pagination_ok_def updatePagination_def displayCurrentPage_def Let_def)
qed

lemma pagination_ok_nextPage: "pagination_ok s \<Longrightarrow> pagination_ok (nextPage s)"
proof (cases "currentPage s < totalPages s \<and> allResults s \<noteq> []")
  case True
  assume ok: "pagination_ok s"
  let ?t = "s\<lparr>currentPage := currentPage s + 1\<rparr>"
  have "pagination_ok (updatePagination (displayCurrentPage ?t))"
    using ok True by (intro pagination_ok_display) (auto simp: pagination_ok_def)
  then show ?thesis using True by (simp add: nextPage_def)
next
  case False
  assume ok: "pagination_ok s"
  then show ?thesis using False
    by (auto simp: nextPage_def pagination_ok_def updatePagination_def displayCurrentPage_def Let_def)
qed

lemma pagination_ok_new_results:
  assumes "resultsPerPage s = 9"
  shows "pagination_ok (displayResults data (s\<lparr>allResults := rs, currentPage := 1\<rparr>))"
    and "pagination_ok (displaySimilarResults data (s\<lparr>searchInput := txt, allResults := rs, currentPage := 1\<rparr>))"
proof -
  have *: "pagination_ok (showResults t)" if "pagination_ok t" for t
    using that totalPages_cong[of "showResults t" t]
    by (simp add: pagination_ok_def showResults_def)
  have **: "pagination_ok (displayCurrentPage (updatePagination t))"
    if "resultsPerPage t = 9" "allResults t \<noteq> []" "currentPage t = 1" for t
    using that totalPages_pos[of t] by (intro pagination_ok_display') auto
  show "pagination_ok (displayResults data (s\<lparr>allResults := rs, currentPage := 1\<rparr>))"
  proof (cases "rs = []")
    case True
    then show ?thesis using assms
      by (simp add: displayResults_def Let_def pagination_ok_def showResults_def)
  next
    case False
    then show ?thesis using assms
      by (simp add: displayResults_def Let_def) (intro * **, auto)
  qed
  show "pagination_ok (displaySimilarResults data (s\<lparr>searchInput := txt, allResults := rs, currentPage := 1\<rparr>))"
  proof (cases "rs = []")
    case True
    then show ?thesis using assms
      by (simp add: displaySimilarResults_def Let_def pagination_ok_def showResults_def)
  next
    case False
    then show ?thesis using assms
      by (simp add: displaySimilarResults_def Let_def) (intro * **, auto)
  qed
qed

lemma pagination_ok_unchanged:
  "pagination_ok s \<Longrightarrow> resultsPerPage t = resultsPerPage s \<Longrightarrow> allResults t = allResults s \<Longrightarrow>
   currentPage t = currentPage s \<Longrightarrow> paginationHidden t = paginationHidden s \<Longrightarrow> pagination_ok t"
  using totalPages_cong[of t s] by (simp add: pagination_ok_def)

lemma pagination_ok_hideLoading: "pagination_ok s \<Longrightarrow> pagination_ok (hideLoading s)"
  by (erule pagination_ok_unchanged) (simp_all add: hideLoading_def)

lemma pagination_ok_showError: "pagination_ok s \<Longrightarrow> pagination_ok (showError m s)"
  by (erule pagination_ok_unchanged) (simp_all add: showError_def)

lemma pagination_ok_hideError: "pagination_ok s \<Longrightarrow> pagination_ok (hideError s)"
  by (erule pagination_ok_unchanged) (simp_all add: hideError_def)

lemma pagination_ok_searchInput: "pagination_ok s \<Longrightarrow> pagination_ok (s\<lparr>searchInput := text\<rparr>)"
  by (erule pagination_ok_unchanged) simp_all

lemma pagination_ok_performSearch_begin:
  "pagination_ok s \<Longrightarrow> pagination_ok (performSearch_begin arg s)"
  by (erule pagination_ok_unchanged)
     (simp_all add: performSearch_begin_def Let_def showError_def hideResults_def hideError_def
        showLoading_def)

lemma pagination_ok_findSimilarSREFs_begin:
  "pagination_ok s \<Longrightarrow> pagination_ok (findSimilarSREFs_begin c s)"
  by (erule pagination_ok_unchanged)
     (simp_all add: findSimilarSREFs_begin_def hideResults_def hideError_def showLoading_def)

lemma pagination_ok_loadTags: "pagination_ok s \<Longrightarrow> pagination_ok (loadTags outcome s)"
  by (erule pagination_ok_unchanged)
     (simp_all add: loadTags_def loadTags_try_def displayTags_def
        split: fetch_outcome.splits tags_value.splits)

lemma pagination_ok_shuffleExamples: "pagination_ok s \<Longrightarrow> pagination_ok (shuffleExamples rnd s)"
  by (erule pagination_ok_unchanged) (simp_all add: shuffleExamples_def)

lemma pagination_ok_performSearch_complete:
  assumes "pagination_ok s"
  shows "pagination_ok (performSearch_complete outcome s)"
proof -
  have rpp: "resultsPerPage s = 9" using assms by (simp add: pagination_ok_def)
  have "pagination_ok (case performSearch_try outcome s of Inr s' \<Rightarrow> s'
          | Inl m \<Rightarrow> showError (''Search failed: '' @ m) s)"
    using assms pagination_ok_new_results(1)[OF rpp]
    by (auto simp: performSearch_try_def pagination_ok_showError
             split: fetch_outcome.splits)
  then show ?thesis
    unfolding performSearch_complete_def by (rule pagination_ok_hideLoading)
qed

lemma pagination_ok_findSimilarSREFs_complete:
  assumes "pagination_ok s"
  shows "pagination_ok (findSimilarSREFs_complete c outcome s)"
proof -
  have rpp: "resultsPerPage s = 9" using assms by (simp add: pagination_ok_def)
  have "pagination_ok (case findSimilarSREFs_try c outcome s of Inr s' \<Rightarrow> s'
          | Inl m \<Rightarrow> showError (''Similar search failed: '' @ m) s)"
    using assms pagination_ok_new_results(2)[OF rpp]
    by (auto simp: findSimilarSREFs_try_def pagination_ok_showError
             split: fetch_outcome.splits)
  then show ?thesis
    unfolding findSimilarSREFs_complete_def by (rule pagination_ok_hideLoading)
qed

lemma reachable_pagination_ok: "reachable s \<Longrightarrow> pagination_ok s"
proof (induction rule: reachable.induct)
  case (start page)
  show ?case by (simp add: pagination_ok_def constructor_def)
next
  case (example s q)
  then show ?case
    unfolding searchExample_begin_def
    by (intro pagination_ok_performSearch_begin pagination_ok_hideError pagination_ok_searchInput)
next
  case (tag s t)
  then show ?case
    unfolding searchByTag_begin_def
    by (intro pagination_ok_performSearch_begin pagination_ok_hideError pagination_ok_searchInput)
qed (simp_all add: pagination_ok_searchInput pagination_ok_hideError pagination_ok_loadTags
      pagination_ok_shuffleExamples pagination_ok_performSearch_begin
      pagination_ok_performSearch_complete pagination_ok_findSimilarSREFs_begin
      pagination_ok_findSimilarSREFs_complete pagination_ok_previousPage
      pagination_ok_nextPage)

lemma reachable_state_page_two: "reachable state_page_two"
  unfolding state_page_two_def
  by (intro reachable.next reachable.search_reply reachable.search reachable.start)

lemma state_page_two_fields:
  "currentPage state_page_two = 2" "allResults state_page_two = eleven_results"
  "resultsPerPage state_page_two = 9" "paginationHidden state_page_two = False"
  by (simp_all add: state_page_two_def page0_def constructor_def reply_with_def
        eleven_results_def page_defs search_defs searchQuery_def totalPages_def Let_def)

text \<open>
  Claim C5. The constructor sets the page size to 9. With that page size and a current
  page \<open>p\<close> of at least 1, \<^verbatim>\<open>displayCurrentPage\<close> shows exactly the results at the positions
  from \<open>(p - 1) * 9\<close> up to \<open>p * 9 - 1\<close> that exist in the full list, the number of pages
  is the ceiling of the number of results divided by 9, and a page shows a result
  exactly when its number is at most the number of pages.
\<close>

theorem displayed_page_of_nine:
  assumes "resultsPerPage s = 9" and "1 \<le> currentPage s"
  shows "resultsPerPage (constructor page) = 9
    \<and> currentResults (displayCurrentPage s)
        = map ((!) (allResults s))
            [nat ((currentPage s - 1) * 9) ..<
               min (nat (currentPage s * 9)) (length (allResults s))]
    \<and> totalPages s = \<lceil>real (length (allResults s)) / 9\<rceil>
    \<and> (currentResults (displayCurrentPage s) \<noteq> [] \<longleftrightarrow> currentPage s \<le> totalPages s)"
proof -
  let ?p = "currentPage s" and ?xs = "allResults s"
  have cur: "currentResults (displayCurrentPage s) = take 9 (drop (nat ((?p - 1) * 9)) ?xs)"
    using assms by (simp add: displayCurrentPage_def Let_def js_slice_nonneg)
  have idx: "nat ((?p - 1) * 9) + 9 = nat (?p * 9)" using assms(2) by (rule page_end_index)
  have pages: "currentResults (displayCurrentPage s)
        = map ((!) ?xs) [nat ((?p - 1) * 9) ..< min (nat (?p * 9)) (length ?xs)]"
    unfolding cur take_drop_nth idx ..
  have tp: "totalPages s = \<lceil>real (length ?xs) / 9\<rceil>"
    using assms(1) by (simp add: totalPages_def)
  have "currentResults (displayCurrentPage s) \<noteq> [] \<longleftrightarrow> nat ((?p - 1) * 9) < length ?xs"
    unfolding cur by (simp add: not_le)
  also have "\<dots> \<longleftrightarrow> ?p \<le> (int (length ?xs) + 8) div 9"
    using assms(2) by (rule page_nonempty_iff)
  finally have ne: "currentResults (displayCurrentPage s) \<noteq> [] \<longleftrightarrow> ?p \<le> totalPages s"
    using assms(1) by (simp add: totalPages_nine)
  show ?thesis using pages tp ne by (simp add: constructor_def)
qed

theorem displayed_page_of_nine_witness:
  "resultsPerPage state_page_two = 9 \<and> 1 \<le> currentPage state_page_two
   \<and> currentResults (displayCurrentPage state_page_two) = [result_of ''10'', result_of ''11'']
   \<and> totalPages state_page_two = 2"
  using displayed_page_of_nine[of state_page_two]
  by (simp add: state_page_two_fields eleven_results_def)

text \<open>
  Claim C10, as the code has it. In every state the page reaches, while the result list
  is not empty the current page lies between 1 and the number of pages, the ceiling of
  the number of results divided by 9, and the controls are hidden exactly when there is
  one page. \<^verbatim>\<open>previousPage\<close> decrements only above page 1, \<^verbatim>\<open>nextPage\<close> increments only
  below the number of pages, a search or find-similar whose reply is successful sets the
  current page to 1, and \<^verbatim>\<open>updatePagination\<close> hides the controls whenever there is at most
  one page.
\<close>

theorem pagination_state_invariant:
  assumes "reachable s"
  shows "totalPages s = \<lceil>real (length (allResults s)) / 9\<rceil>
    \<and> (allResults s \<noteq> [] \<longrightarrow>
          1 \<le> currentPage s \<and> currentPage s \<le> totalPages s
          \<and> (paginationHidden s \<longleftrightarrow> totalPages s \<le> 1))
    \<and> currentPage (previousPage s)
        = (if 1 < currentPage s then currentPage s - 1 else currentPage s)
    \<and> currentPage (nextPage s)
        = (if currentPage s < totalPages s then currentPage s + 1 else currentPage s)
    \<and> currentPage (performSearch_complete (Response True data) s) = 1
    \<and> currentPage (findSimilarSREFs_complete c (Response True data) s) = 1
    \<and> (totalPages s \<le> 1 \<longrightarrow> paginationHidden (updatePagination s))"
proof -
  have ok: "pagination_ok s" using assms by (rule reachable_pagination_ok)
  then have tp: "totalPages s = \<lceil>real (length (allResults s)) / 9\<rceil>"
    by (simp add: pagination_ok_def totalPages_def)
  have inv: "allResults s \<noteq> [] \<longrightarrow>
          1 \<le> currentPage s \<and> currentPage s \<le> totalPages s
          \<and> (paginationHidden s \<longleftrightarrow> totalPages s \<le> 1)"
    using ok by (simp add: pagination_ok_def)
  have prev: "currentPage (previousPage s)
        = (if 1 < currentPage s then currentPage s - 1 else currentPage s)"
    by (simp add: previousPage_def updatePagination_def displayCurrentPage_def Let_def)
  have nxt: "currentPage (nextPage s)
        = (if currentPage s < totalPages s then currentPage s + 1 else currentPage s)"
    by (simp add: nextPage_def updatePagination_def displayCurrentPage_def Let_def)
  have s1: "currentPage (performSearch_complete (Response True data) s) = 1"
    by (simp add: performSearch_complete_def performSearch_try_def displayResults_def
          hideLoading_def showResults_def updatePagination_def displayCurrentPage_def Let_def)
  have s2: "currentPage (findSimilarSREFs_complete c (Response True data) s) = 1"
    by (simp add: findSimilarSREFs_complete_def findSimilarSREFs_try_def
          displaySimilarResults_def hideLoading_def showResults_def updatePagination_def
          displayCurrentPage_def Let_def)
  have hid: "totalPages s \<le> 1 \<longrightarrow> paginationHidden (updatePagination s)"
    by (simp add: updatePagination_def)
  show ?thesis using tp inv prev nxt s1 s2 hid by (intro conjI)
qed

theorem pagination_state_invariant_witness:
  "reachable state_page_two \<and> allResults state_page_two \<noteq> []
   \<and> currentPage state_page_two = 2 \<and> totalPages state_page_two = 2
   \<and> \<not> paginationHidden state_page_two
   \<and> currentPage (previousPage state_page_two) = 1
   \<and> currentPage (nextPage state_page_two) = 2"
  using pagination_state_invariant[OF reachable_state_page_two]
  by (simp add: reachable_state_page_two state_page_two_fields eleven_results_def)

text \<open>
  Claim C10 as stated fails in two places, both from a page that shows page 2 of eleven
  results. A search whose request fails throws before the assignments, so the current
  page stays 2. A search whose reply holds no results shows the message for an empty
  list without a call of \<^verbatim>\<open>updatePagination\<close>, so with no page left the controls stay
  visible.
\<close>

theorem failed_search_keeps_page:
  "currentPage (performSearch (Some ''sea'') (NetworkFailure ''Failed to fetch'') state_page_two)
     = 2
   \<and> allResults (performSearch (Some ''sea'') (reply_with []) state_page_two) = []
   \<and> totalPages (performSearch (Some ''sea'') (reply_with []) state_page_two) = 0
   \<and> \<not> paginationHidden (performSearch (Some ''sea'') (reply_with []) state_page_two)"
  by (simp add: performSearch_def searchQuery_def performSearch_begin_def
        performSearch_complete_def performSearch_try_def page_defs state_page_two_fields
        reply_with_def totalPages_def)

section \<open>The check of the query text\<close>

lemma trim_Nil_iff: "trim s = [] \<longleftrightarrow> is_blank s"
proof
  assume "is_blank s"
  then have "dropWhile is_whitespace s = []"
    by (simp add: is_blank_def list_all_iff)
  then show "trim s = []" by (simp add: trim_def del: dropWhile_eq_Nil_conv)
next
  let ?d = "dropWhile is_whitespace s"
  assume "trim s = []"
  then have all: "\<forall>c\<in>set ?d. is_whitespace c"
    by (simp add: trim_def)
  have "?d = []"
  proof (rule ccontr)
    assume ne: "?d \<noteq> []"
    then have "\<not> is_whitespace (hd ?d)" by (rule hd_dropWhile)
    moreover have "hd ?d \<in> set ?d" using ne by (rule hd_in_set)
    ultimately show False using all by blast
  qed
  then show "is_blank s" by (simp add: is_blank_def list_all_iff)
qed

lemma requests_performSearch_complete:
  "requests (performSearch_complete outcome s) = requests s"
  by (simp add: performSearch_complete_def performSearch_try_def page_defs Let_def
      split: fetch_outcome.splits)

lemma searchQuery_typed:
  "arg = None \<or> arg = Some [] \<Longrightarrow> searchQuery arg s = trim (searchInput s)"
  by (auto simp: searchQuery_def)

text \<open>
  What \<^verbatim>\<open>performSearch\<close> does with its two sources of text: the text of the search box is
  checked after trimming, a non-empty query argument is used as it is.
\<close>

lemma search_box_text_checked:
  "((arg = None \<or> arg = Some []) \<and> is_blank (searchInput s) \<longrightarrow>
      performSearch arg outcome s = showError ''Please enter a search term'' s
      \<and> requests (performSearch arg outcome s) = requests s
      \<and> allResults (performSearch arg outcome s) = allResults s
      \<and> currentPage (performSearch arg outcome s) = currentPage s)
   \<and> ((arg = None \<or> arg = Some []) \<and> \<not> is_blank (searchInput s) \<longrightarrow>
      performSearch arg outcome s = performSearch_complete outcome (performSearch_begin arg s)
      \<and> requests (performSearch arg outcome s)
          = requests s @ [SearchRequest (trim (searchInput s))])
   \<and> (q \<noteq> [] \<longrightarrow>
      performSearch (Some q) outcome s
        = performSearch_complete outcome (performSearch_begin (Some q) s)
      \<and> requests (performSearch (Some q) outcome s) = requests s @ [SearchRequest q])"
proof (intro conjI impI)
  assume a: "(arg = None \<or> arg = Some []) \<and> is_blank (searchInput s)"
  then have q: "searchQuery arg s = []"
    using searchQuery_typed[of arg s] by (simp add: trim_Nil_iff)
  then show e: "performSearch arg outcome s = showError ''Please enter a search term'' s"
    by (simp add: performSearch_def performSearch_begin_def)
  show "requests (performSearch arg outcome s) = requests s"
    unfolding e by (simp add: showError_def)
  show "allResults (performSearch arg outcome s) = allResults s"
    unfolding e by (simp add: showError_def)
  show "currentPage (performSearch arg outcome s) = currentPage s"
    unfolding e by (simp add: showError_def)
next
  assume a: "(arg = None \<or> arg = Some []) \<and> \<not> is_blank (searchInput s)"
  then have q: "searchQuery arg s = trim (searchInput s)" "trim (searchInput s) \<noteq> []"
    using searchQuery_typed[of arg s] by (simp_all add: trim_Nil_iff)
  then show e: "performSearch arg outcome s
      = performSearch_complete outcome (performSearch_begin arg s)"
    by (simp add: performSearch_def)
  show "requests (performSearch arg outcome s)
          = requests s @ [SearchRequest (trim (searchInput s))]"
    unfolding e requests_performSearch_complete using q
    by (simp add: performSearch_begin_def hideResults_def hideError_def showLoading_def)
next
  assume a: "q \<noteq> []"
  then have q: "searchQuery (Some q) s = q" by (simp add: searchQuery_def)
  then show e: "performSearch (Some q) outcome s
        = performSearch_complete outcome (performSearch_begin (Some q) s)"
    using a by (simp add: performSearch_def)
  show "requests (performSearch (Some q) outcome s) = requests s @ [SearchRequest q]"
    unfolding e requests_performSearch_complete using q a
    by (simp add: performSearch_begin_def hideResults_def hideError_def showLoading_def)
qed

lemma blank_examples: "is_blank ''   ''" "\<not> is_blank '' sky ''" "trim '' sky '' = ''sky''"
  by (simp_all add: is_blank_def is_whitespace_def trim_def)

lemma searchByTag_whitespace_reachable:
  "reachable (searchByTag_begin ''   '' (constructor page0))"
  by (intro reachable.tag reachable.start)

text \<open>
  Claim C4. The check of the query misses a query argument of whitespace only. The text
  of the search box is trimmed before the check, so three spaces typed there show the
  message \<^verbatim>\<open>Please enter a search term\<close> and send nothing; a query argument is not
  trimmed, so the same three spaces passed by \<^verbatim>\<open>searchByTag\<close> pass the check and the
  request is sent. The argument is the text of a card's tag after the page has written it
  into the \<^verbatim>\<open>onclick\<close> attribute, where the tag \<^verbatim>\<open>&#32;&#32;&#32;\<close>, which \<^verbatim>\<open>extractTags\<close>
  returns for the summary below, is read back as three spaces.
\<close>

theorem whitespace_argument_is_sent:
  "is_blank ''   ''
   \<and> extractTags ''Key themes: &#32;&#32;&#32;'' = [''&#32;&#32;&#32;'']
   \<and> requests (searchByTag_begin ''   '' (constructor page0))
       = [TagsRequest, SearchRequest ''   '']
   \<and> requests (performSearch (Some ''   '') (reply_with []) (constructor page0))
       = [TagsRequest, SearchRequest ''   '']
   \<and> requests (performSearch None (reply_with [])
        ((constructor page0)\<lparr>searchInput := ''   ''\<rparr>)) = [TagsRequest]
   \<and> errorText (performSearch None (reply_with [])
        ((constructor page0)\<lparr>searchInput := ''   ''\<rparr>)) = ''Please enter a search term''"
proof (intro conjI)
  show "is_blank ''   ''" by (rule blank_examples)
  show "extractTags ''Key themes: &#32;&#32;&#32;'' = [''&#32;&#32;&#32;'']"
    by (simp add: extractTags_def trim_def is_whitespace_def is_line_terminator_def
          key_themes_label_def capture_line_def)
  show "requests (searchByTag_begin ''   '' (constructor page0))
       = [TagsRequest, SearchRequest ''   '']"
    by (simp add: searchByTag_begin_def performSearch_begin_def searchQuery_def
          hideResults_def hideError_def showLoading_def constructor_def Let_def)
  show "requests (performSearch (Some ''   '') (reply_with []) (constructor page0))
       = [TagsRequest, SearchRequest ''   '']"
    by (simp add: performSearch_def searchQuery_def requests_performSearch_complete
          performSearch_begin_def hideResults_def hideError_def showLoading_def
          constructor_def)
  let ?s1 = "(constructor page0)\<lparr>searchInput := ''   ''\<rparr>"
  have "searchQuery None ?s1 = []"
    by (simp add: searchQuery_def trim_Nil_iff blank_examples)
  then have e: "performSearch None (reply_with []) ?s1
      = showError ''Please enter a search term'' ?s1"
    by (simp add: performSearch_def performSearch_begin_def)
  show "requests (performSearch None (reply_with []) ?s1) = [TagsRequest]"
    unfolding e by (simp add: showError_def constructor_def)
  show "errorText (performSearch None (reply_with []) ?s1) = ''Please enter a search term''"
    unfolding e by (simp add: showError_def)
qed

section \<open>Loading and sampling the example tags\<close>

lemma js_slice_take: "0 \<le> n \<Longrightarrow> js_slice xs 0 n = take (nat n) xs"
  by (simp add: js_slice_nonneg)

lemma loadTags_failure:
  "loadTags_try outcome s = Inl m \<Longrightarrow> loadTags outcome s = displayTags (s\<lparr>availableTags := fallbackTags\<rparr>)"
  by (simp add: loadTags_def)

lemma availableTags_loadTags:
  "availableTags (loadTags outcome s) =
     (case outcome of
        NetworkFailure m \<Rightarrow> fallbackTags
      | InvalidJson m \<Rightarrow> fallbackTags
      | Response ok data \<Rightarrow>
          if ok then (case tags data of NotAnArray \<Rightarrow> fallbackTags | TagArray ts \<Rightarrow> ts)
          else fallbackTags)"
  by (simp add: loadTags_def loadTags_try_def displayTags_def
      split: fetch_outcome.splits tags_value.splits)

lemma displayedTags_loadTags:
  "displayedTags (loadTags outcome s) = take 6 (availableTags (loadTags outcome s))"
  by (simp add: loadTags_def loadTags_try_def displayTags_def js_slice_take
      split: fetch_outcome.splits tags_value.splits)

lemma fallbackTags_length: "length fallbackTags = 15"
  by (simp add: fallbackTags_def)

text \<open>
  Claim C6, as the code has it. \<^verbatim>\<open>loadTags\<close> always completes. Whenever its \<^verbatim>\<open>try\<close> block
  throws (rejected request, body that is not JSON, reply that is not ok, \<^verbatim>\<open>tags\<close> that
  is not an array) the available tags are the fallback list of 15 tags; after a
  successful reply they are the array the server sent. The first six are displayed. The
  available tags are empty exactly when the server sent an empty array. Results and
  current page are not touched.
\<close>

theorem loadTags_falls_back:
  "((\<exists>m. loadTags_try outcome s = Inl m) \<longrightarrow> availableTags (loadTags outcome s) = fallbackTags)
   \<and> availableTags (loadTags outcome s) =
       (case outcome of
          NetworkFailure m \<Rightarrow> fallbackTags
        | InvalidJson m \<Rightarrow> fallbackTags
        | Response ok data \<Rightarrow>
            if ok then (case tags data of NotAnArray \<Rightarrow> fallbackTags | TagArray ts \<Rightarrow> ts)
            else fallbackTags)
   \<and> displayedTags (loadTags outcome s) = take 6 (availableTags (loadTags outcome s))
   \<and> length fallbackTags = 15
   \<and> ((availableTags (loadTags outcome s) = [])
        = (\<exists>data. outcome = Response True data \<and> tags data = TagArray []))
   \<and> allResults (loadTags outcome s) = allResults s
   \<and> currentPage (loadTags outcome s) = currentPage s"
proof -
  have ne: "fallbackTags \<noteq> []" using fallbackTags_length by auto
  have fail: "(\<exists>m. loadTags_try outcome s = Inl m) \<longrightarrow>
      availableTags (loadTags outcome s) = fallbackTags"
    by (auto simp: loadTags_failure displayTags_def)
  have empty: "(availableTags (loadTags outcome s) = [])
        = (\<exists>data. outcome = Response True data \<and> tags data = TagArray [])"
    unfolding availableTags_loadTags using ne
    by (auto split: fetch_outcome.splits tags_value.splits)
  have same: "allResults (loadTags outcome s) = allResults s"
    "currentPage (loadTags outcome s) = currentPage s"
    by (simp_all add: loadTags_def loadTags_try_def displayTags_def
        split: fetch_outcome.splits tags_value.splits)
  show ?thesis
    using fail availableTags_loadTags[of outcome s] displayedTags_loadTags[of outcome s]
      fallbackTags_length empty same
    by (intro conjI)
qed

theorem loadTags_falls_back_witness:
  "loadTags_try (InvalidJson ''Unexpected token'') (constructor page0) = Inl ''Unexpected token''
   \<and> availableTags (loadTags (InvalidJson ''Unexpected token'') (constructor page0)) = fallbackTags
   \<and> displayedTags (loadTags (InvalidJson ''Unexpected token'') (constructor page0))
       = [''abstract'', ''art'', ''photorealistic'', ''portrait'', ''minimalist'', ''design'']"
  using loadTags_falls_back[of "InvalidJson ''Unexpected token''" "constructor page0"]
  by (simp add: loadTags_try_def fallbackTags_def)

text \<open>
  Claim C6 as stated fails for a successful reply with an empty array: nothing is thrown,
  so the fallback is not used and no tags are available.
\<close>

theorem loadTags_empty_array:
  "availableTags (loadTags (tags_reply_with []) (constructor page0)) = []"
  by (simp add: loadTags_def loadTags_try_def displayTags_def tags_reply_with_def)

lemma floor_random_index:
  assumes "random_in_range rnd"
  shows "nat \<lfloor>rnd k * real (Suc i + 1)\<rfloor> \<le> Suc i"
proof -
  have r: "0 \<le> rnd k" "rnd k < 1" using assms by (simp_all add: random_in_range_def)
  have "rnd k * real (Suc i + 1) < 1 * real (Suc i + 1)"
    using r(2) by (intro mult_strict_right_mono) simp_all
  then have "\<lfloor>rnd k * real (Suc i + 1)\<rfloor> < int (Suc i + 1)"
    by (simp add: floor_less_iff)
  then show ?thesis by linarith
qed

lemma length_swap [simp]: "length (swap i j xs) = length xs"
  by (simp add: swap_def)

lemma mset_swap_list: "i < length xs \<Longrightarrow> j < length xs \<Longrightarrow> mset (swap i j xs) = mset xs"
  unfolding swap_def by (rule mset_swap)

lemma mset_shuffle_loop:
  "random_in_range rnd \<Longrightarrow> i < length xs \<Longrightarrow> mset (shuffle_loop rnd k i xs) = mset xs"
proof (induction i arbitrary: k xs)
  case 0
  show ?case by simp
next
  case (Suc i)
  let ?j = "nat \<lfloor>rnd k * real (Suc i + 1)\<rfloor>"
  have j: "?j < length xs" using floor_random_index[OF Suc.prems(1), of k i] Suc.prems(2) by linarith
  have "mset (shuffle_loop rnd (Suc k) i (swap (Suc i) ?j xs)) = mset (swap (Suc i) ?j xs)"
    using Suc.prems by (intro Suc.IH) simp_all
  also have "\<dots> = mset xs" using Suc.prems(2) j by (rule mset_swap_list)
  finally show ?case by (simp add: Let_def)
qed

lemma mset_take_subset: "mset (take n xs) \<subseteq># mset xs"
proof -
  have "mset xs = mset (take n xs) + mset (drop n xs)"
    by (metis append_take_drop_id mset_append)
  then show ?thesis by simp
qed

lemma reachable_tags: "reachable s \<Longrightarrow> availableTags s = [] \<longrightarrow> displayedTags s = []"
proof (induction rule: reachable.induct)
  case (tags_reply s outcome)
  show ?case by (simp add: displayedTags_loadTags)
qed (simp_all add: constructor_def shuffleExamples_def search_defs page_defs Let_def
      split: fetch_outcome.splits)

text \<open>
  Claim C8. In every state the page reaches and for every run of \<^verbatim>\<open>Math.random\<close>, the
  tags that \<^verbatim>\<open>shuffleExamples\<close> displays are drawn from the available tags without
  replacement: no tag is displayed more often than it is available, so distinct available
  tags give distinct displayed tags and every displayed tag is available. Six tags are
  displayed, or all of them when at most six are available, and then the displayed tags
  are the available tags in some order.
\<close>

theorem shuffle_sample:
  assumes "reachable s" and "random_in_range rnd"
  shows "mset (displayedTags (shuffleExamples rnd s)) \<subseteq># mset (availableTags s)
    \<and> set (displayedTags (shuffleExamples rnd s)) \<subseteq> set (availableTags s)
    \<and> (distinct (availableTags s) \<longrightarrow> distinct (displayedTags (shuffleExamples rnd s)))
    \<and> length (displayedTags (shuffleExamples rnd s)) = min 6 (length (availableTags s))
    \<and> (length (availableTags s) \<le> 6 \<longrightarrow>
          mset (displayedTags (shuffleExamples rnd s)) = mset (availableTags s))
    \<and> availableTags (shuffleExamples rnd s) = availableTags s"
proof -
  let ?xs = "availableTags s"
  let ?ys = "shuffle_loop rnd 0 (length ?xs - 1) ?xs"
  have shown: "displayedTags (shuffleExamples rnd s) = take 6 ?ys \<and> mset ?ys = mset ?xs"
  proof (cases "?xs = []")
    case True
    then have "displayedTags s = []" using reachable_tags[OF assms(1)] by simp
    then show ?thesis using True by (simp add: shuffleExamples_def)
  next
    case False
    then have "length ?xs - 1 < length ?xs" by (cases ?xs) simp_all
    with assms(2) have "mset ?ys = mset ?xs" by (rule mset_shuffle_loop)
    then show ?thesis using False by (simp add: shuffleExamples_def js_slice_take)
  qed
  then have d: "displayedTags (shuffleExamples rnd s) = take 6 ?ys" and m: "mset ?ys = mset ?xs"
    by simp_all
  have len: "length ?ys = length ?xs" using m by (rule mset_eq_length)
  have sub: "mset (displayedTags (shuffleExamples rnd s)) \<subseteq># mset ?xs"
    unfolding d using mset_take_subset[of 6 ?ys] m by simp
  then have st: "set (displayedTags (shuffleExamples rnd s)) \<subseteq> set ?xs"
    using set_mset_mono by fastforce
  have dist: "distinct ?xs \<longrightarrow> distinct (displayedTags (shuffleExamples rnd s))"
  proof
    assume "distinct ?xs"
    then have "distinct ?ys" by (simp only: mset_eq_imp_distinct_iff[OF m])
    then show "distinct (displayedTags (shuffleExamples rnd s))"
      unfolding d by (rule distinct_take)
  qed
  have l: "length (displayedTags (shuffleExamples rnd s)) = min 6 (length ?xs)"
    unfolding d using len by simp
  have full: "length ?xs \<le> 6 \<longrightarrow> mset (displayedTags (shuffleExamples rnd s)) = mset ?xs"
    unfolding d using len m by simp
  have av: "availableTags (shuffleExamples rnd s) = ?xs"
    by (simp add: shuffleExamples_def)
  show ?thesis using sub st dist l full av by (intro conjI)
qed

lemma reachable_state_four_tags: "reachable state_four_tags"
  unfolding state_four_tags_def by (intro reachable.tags_reply reachable.start)

lemma always_half_in_range: "random_in_range always_half"
  by (simp add: random_in_range_def always_half_def)

lemma state_four_tags_fields:
  "availableTags state_four_tags = [''sky'', ''sea'', ''sun'', ''ice'']"
  by (simp add: state_four_tags_def availableTags_loadTags tags_reply_with_def)

theorem shuffle_sample_witness:
  "reachable state_four_tags \<and> random_in_range always_half
   \<and> distinct (availableTags state_four_tags)
   \<and> displayedTags (shuffleExamples always_half state_four_tags)
       = [''sky'', ''ice'', ''sea'', ''sun'']
   \<and> mset (displayedTags (shuffleExamples always_half state_four_tags))
       = mset (availableTags state_four_tags)"
  using shuffle_sample[OF reachable_state_four_tags always_half_in_range]
  by (simp add: reachable_state_four_tags always_half_in_range state_four_tags_fields
        shuffleExamples_def always_half_def swap_def js_slice_take)

section \<open>Scoring and ranking in the search service\<close>

lemma dot_self: "dot v v = sum_list (map (\<lambda>x. x * x) v)"
  by (simp add: dot_def zip_same_conv_map comp_def)

lemma dot_self_zero_iff: "dot v v = 0 \<longleftrightarrow> (\<forall>x\<in>set v. x = 0)"
proof -
  have "sum_list (map (\<lambda>x. x * x) v) = 0 \<longleftrightarrow> (\<forall>y\<in>set (map (\<lambda>x. x * x) v). y = 0)"
    by (rule sum_list_nonneg_eq_0_iff) auto
  then show ?thesis by (auto simp: dot_self)
qed

lemma magnitude_zero_iff: "magnitude v = 0 \<longleftrightarrow> (\<forall>x\<in>set v. x = 0)"
  by (simp add: magnitude_def dot_self_zero_iff)

lemma cosine_similarity_value:
  "cosine_similarity a b =
     Inr (if magnitude a = 0 \<or> magnitude b = 0 then 0
          else dot a b / (magnitude a * magnitude b))"
  by (simp add: cosine_similarity_def divide_checked_def)

text \<open>
  Claim C2. The score is zero whenever one of the two vectors has magnitude zero;
  otherwise the divisor is not zero and the score is the dot product divided by the
  product of the magnitudes. So the score is always a number, never a failure. A vector
  has magnitude zero exactly when all its components are zero.
\<close>

theorem cosine_similarity_total:
  "(magnitude a = 0 \<or> magnitude b = 0 \<longrightarrow> cosine_similarity a b = Inr 0)
   \<and> (magnitude a \<noteq> 0 \<and> magnitude b \<noteq> 0 \<longrightarrow>
        magnitude a * magnitude b \<noteq> 0
        \<and> cosine_similarity a b = Inr (dot a b / (magnitude a * magnitude b)))
   \<and> (\<exists>r. cosine_similarity a b = Inr r)
   \<and> (magnitude a = 0 \<longleftrightarrow> (\<forall>x\<in>set a. x = 0))"
proof (intro conjI impI)
  assume "magnitude a = 0 \<or> magnitude b = 0"
  then show "cosine_similarity a b = Inr 0" by (simp add: cosine_similarity_def)
next
  assume nz: "magnitude a \<noteq> 0 \<and> magnitude b \<noteq> 0"
  then show divisor: "magnitude a * magnitude b \<noteq> 0" by simp
  have "divide_checked (dot a b) (magnitude a * magnitude b)
        = Inr (dot a b / (magnitude a * magnitude b))"
    using divisor by (simp add: divide_checked_def)
  then show "cosine_similarity a b = Inr (dot a b / (magnitude a * magnitude b))"
    using nz by (simp add: cosine_similarity_def)
next
  show "\<exists>r. cosine_similarity a b = Inr r"
    by (simp add: cosine_similarity_value)
next
  show "magnitude a = 0 \<longleftrightarrow> (\<forall>x\<in>set a. x = 0)"
    by (rule magnitude_zero_iff)
qed

theorem cosine_similarity_total_witness:
  "magnitude [0, 0] = 0 \<and> cosine_similarity [0, 0] [1, 1] = Inr 0
   \<and> magnitude [1, 0] \<noteq> 0 \<and> magnitude [1, 1] \<noteq> 0
   \<and> cosine_similarity [1, 0] [1, 1] = Inr (1 / sqrt 2)"
  using cosine_similarity_total[of "[0, 0]" "[1, 1]"] cosine_similarity_total[of "[1, 0]" "[1, 1]"]
  by (simp add: magnitude_def dot_def)

lemma score_entries_value:
  "score_entries q es =
     Inr (map (\<lambda>e. (code e, projr (cosine_similarity q (embedding e)))) es)"
  by (induction es) (simp_all add: cosine_similarity_value)

lemma rank_value:
  "rank q store ex =
     Inr (sort_key (\<lambda>p. - snd p)
       (map (\<lambda>e. (code e, projr (cosine_similarity q (embedding e))))
         (filter (\<lambda>e. Some (code e) \<noteq> ex) store)))"
  by (simp add: rank_def score_entries_value)

lemma length_filter_other:
  "distinct (map f xs) \<Longrightarrow> c \<in> f ` set xs \<Longrightarrow>
   Suc (length (filter (\<lambda>x. f x \<noteq> c) xs)) = length xs"
proof (induction xs)
  case Nil
  then show ?case by simp
next
  case (Cons x xs)
  show ?case
  proof (cases "f x = c")
    case True
    then have "c \<notin> f ` set xs" using Cons.prems(1) by auto
    then have "filter (\<lambda>x. f x \<noteq> c) xs = xs" by (auto simp: filter_id_conv)
    then show ?thesis using True by simp
  next
    case False
    then show ?thesis using Cons by auto
  qed
qed

lemma length_filter_absent:
  "c \<notin> f ` set xs \<Longrightarrow> length (filter (\<lambda>x. f x \<noteq> c) xs) = length xs"
  by (induction xs) auto

text \<open>
  Claim C1. For a store with unique codes, every query vector and every choice of an
  excluded code, \<^verbatim>\<open>rank\<close> returns a sequence: its codes are the codes of the store, each
  exactly once, without the excluded one; its length is the size of the store, one less
  when the excluded code is in the store; every pair carries the score of its entry; the
  scores descend; and the entries of equal score keep the order they have in the store.
  \<^verbatim>\<open>rank\<close> is a function of its three arguments, so equal inputs give equal orderings.
\<close>

theorem rank_orders_every_entry:
  assumes "distinct (map code store)"
  shows "\<exists>ranked. rank q store ex = Inr ranked
     \<and> mset (map fst ranked) = mset (filter (\<lambda>c. Some c \<noteq> ex) (map code store))
     \<and> distinct (map fst ranked)
     \<and> length ranked = length store - (if ex \<in> Some ` code ` set store then 1 else 0)
     \<and> (\<forall>p\<in>set ranked. \<exists>e\<in>set store.
            code e = fst p \<and> cosine_similarity q (embedding e) = Inr (snd p))
     \<and> sorted_wrt (\<lambda>a b. snd b \<le> snd a) ranked
     \<and> (\<forall>k. map fst (filter (\<lambda>p. snd p = k) ranked)
            = map code (filter (\<lambda>e. Some (code e) \<noteq> ex
                                  \<and> cosine_similarity q (embedding e) = Inr k) store))"
proof -
  let ?sim = "\<lambda>e. projr (cosine_similarity q (embedding e))"
  let ?kept = "filter (\<lambda>e. Some (code e) \<noteq> ex) store"
  let ?scored = "map (\<lambda>e. (code e, ?sim e)) ?kept"
  let ?ranked = "sort_key (\<lambda>p. - snd p) ?scored"
  have sim: "cosine_similarity q (embedding e) = Inr k \<longleftrightarrow> ?sim e = k"
    for e :: StyleEntry and k
    by (auto simp: cosine_similarity_value)
  have r: "rank q store ex = Inr ?ranked" by (rule rank_value)
  have ms: "mset ?ranked = mset ?scored" by simp
  have codes: "map fst ?scored = filter (\<lambda>c. Some c \<noteq> ex) (map code store)"
    by (simp add: filter_map comp_def)
  from ms have "image_mset fst (mset ?ranked) = image_mset fst (mset ?scored)"
    by (rule arg_cong)
  then have "mset (map fst ?ranked) = mset (map fst ?scored)"
    unfolding mset_map .
  then have perm: "mset (map fst ?ranked) = mset (filter (\<lambda>c. Some c \<noteq> ex) (map code store))"
    unfolding codes .
  have "distinct (filter (\<lambda>c. Some c \<noteq> ex) (map code store))"
    using assms by (rule distinct_filter)
  then have dist: "distinct (map fst ?ranked)"
    by (simp only: mset_eq_imp_distinct_iff[OF perm])
  have len: "length ?ranked = length store - (if ex \<in> Some ` code ` set store then 1 else 0)"
  proof (cases ex)
    case None
    then show ?thesis by auto
  next
    case (Some c)
    have k: "?kept = filter (\<lambda>e. code e \<noteq> c) store" using Some by simp
    show ?thesis
    proof (cases "c \<in> code ` set store")
      case True
      then have "Suc (length ?kept) = length store"
        unfolding k using assms by (intro length_filter_other)
      then show ?thesis using True Some by auto
    next
      case False
      then have "length ?kept = length store" unfolding k by (rule length_filter_absent)
      then show ?thesis using False Some by auto
    qed
  qed
  have mem: "\<forall>p\<in>set ?ranked. \<exists>e\<in>set store.
            code e = fst p \<and> cosine_similarity q (embedding e) = Inr (snd p)"
    by (auto simp: sim)
  have "sorted (map (\<lambda>p. - snd p) ?ranked)" by (rule sorted_sort_key)
  then have srt: "sorted_wrt (\<lambda>a b. snd b \<le> snd a) ?ranked"
    by (simp add: sorted_map)
  have stable: "map fst (filter (\<lambda>p. snd p = k) ?ranked)
            = map code (filter (\<lambda>e. Some (code e) \<noteq> ex
                                  \<and> cosine_similarity q (embedding e) = Inr k) store)" for k
  proof -
    have "filter (\<lambda>p. snd p = k) ?ranked = filter (\<lambda>p. - snd p = - k) ?ranked" by simp
    also have "\<dots> = filter (\<lambda>p. - snd p = - k) ?scored" by (rule sort_key_stable)
    also have "\<dots> = map (\<lambda>e. (code e, ?sim e)) (filter (\<lambda>e. ?sim e = k) ?kept)"
      by (simp add: filter_map comp_def)
    finally have "map fst (filter (\<lambda>p. snd p = k) ?ranked)
        = map code (filter (\<lambda>e. ?sim e = k) ?kept)"
      by (simp add: comp_def)
    also have "filter (\<lambda>e. ?sim e = k) ?kept
        = filter (\<lambda>e. Some (code e) \<noteq> ex \<and> cosine_similarity q (embedding e) = Inr k) store"
      by (simp add: sim conj_commute)
    finally show ?thesis .
  qed
  show ?thesis
    using r perm dist len mem srt stable by (intro exI[of _ ?ranked] conjI allI)
qed

lemma store_abc_scores:
  "cosine_similarity [1, 0] (embedding entry_A) = Inr 1"
  "cosine_similarity [1, 0] (embedding entry_B) = Inr 0"
  "cosine_similarity [1, 0] (embedding entry_C) = Inr (1 / sqrt 2)"
  "cosine_similarity [0, 1] (embedding entry_A) = Inr 0"
  "cosine_similarity [0, 1] (embedding entry_C) = Inr (1 / sqrt 2)"
  "cosine_similarity [1, 1] (embedding entry_A) = Inr (1 / sqrt 2)"
  "cosine_similarity [1, 1] (embedding entry_B) = Inr (1 / sqrt 2)"
  "cosine_similarity [1, 1] (embedding entry_C) = Inr 1"
  by (simp_all add: cosine_similarity_value magnitude_def dot_def entry_A_def entry_B_def
        entry_C_def)

lemma store_abc_codes: "code entry_A = ''A''" "code entry_B = ''B''" "code entry_C = ''C''"
  by (simp_all add: entry_A_def entry_B_def entry_C_def)

lemma rank_store_abc:
  "rank [1, 0] store_abc None = Inr [(''A'', 1), (''C'', 1 / sqrt 2), (''B'', 0)]"
  "rank [0, 1] store_abc (Some ''B'') = Inr [(''C'', 1 / sqrt 2), (''A'', 0)]"
  "rank [1, 1] store_abc None = Inr [(''C'', 1), (''A'', 1 / sqrt 2), (''B'', 1 / sqrt 2)]"
  by (simp_all add: rank_def store_abc_def store_abc_scores store_abc_codes)

lemma store_abc_shape: "distinct (map code store_abc)" "length store_abc = 3"
  by (simp_all add: store_abc_def store_abc_codes)

theorem rank_orders_every_entry_witness:
  "distinct (map code store_abc)
   \<and> rank [0, 1] store_abc (Some ''B'') = Inr [(''C'', 1 / sqrt 2), (''A'', 0)]
   \<and> length [(''C'', 1 / sqrt 2), (''A'', 0 :: real)] = length store_abc - 1"
  using rank_orders_every_entry[OF store_abc_shape(1), of "[0, 1]" "Some ''B''"]
  by (simp add: rank_store_abc store_abc_shape)

section \<open>Find similar, from the service to the page\<close>

lemma get_present:
  assumes "c \<in> code ` set store"
  shows "\<exists>e. get store c = Inr e \<and> e \<in> set store \<and> code e = c"
proof -
  from assms obtain e where "find (\<lambda>e. code e = c) store = Some e"
    by (cases "find (\<lambda>e. code e = c) store") (auto simp: find_None_iff)
  moreover from this have "e \<in> set store" "code e = c"
    by (auto simp: find_Some_iff)
  ultimately show ?thesis by (simp add: get_def)
qed

lemma package_present:
  assumes "fst p \<in> code ` set store"
  shows "\<exists>r. package store p = Some r \<and> sref_code r = fst p"
proof -
  from get_present[OF assms] obtain e where "get store (fst p) = Inr e" by blast
  then show ?thesis by (simp add: package_def)
qed

lemma map_filter_package:
  "\<forall>p\<in>set ps. fst p \<in> code ` set store \<Longrightarrow>
   map sref_code (List.map_filter (package store) ps) = map fst ps"
proof (induction ps)
  case Nil
  show ?case by simp
next
  case (Cons p ps)
  from Cons.prems obtain r where "package store p = Some r" "sref_code r = fst p"
    using package_present[of p store] by auto
  then show ?case using Cons by simp
qed

lemma set_ranked_codes:
  assumes "rank q store ex = Inr ranked"
  shows "fst ` set ranked = {c \<in> code ` set store. Some c \<noteq> ex}"
proof -
  let ?scored = "map (\<lambda>e. (code e, projr (cosine_similarity q (embedding e))))
         (filter (\<lambda>e. Some (code e) \<noteq> ex) store)"
  have "ranked = sort_key (\<lambda>p. - snd p) ?scored" using assms by (simp add: rank_value)
  then have "set ranked = set ?scored" by (simp only: set_sort)
  then have "fst ` set ranked = set (map fst ?scored)" by (simp only: set_map)
  also have "map fst ?scored = filter (\<lambda>c. Some c \<noteq> ex) (map code store)"
    by (simp add: filter_map comp_def)
  also have "set \<dots> = {c \<in> code ` set store. Some c \<noteq> ex}" by auto
  finally show ?thesis .
qed

lemma currentResults_displayCurrentPage:
  "set (currentResults (displayCurrentPage t)) \<subseteq> set (allResults t)"
  using set_js_slice by (simp add: displayCurrentPage_def Let_def)

text \<open>
  Claim C3. For a reference code in the store, \<^verbatim>\<open>search_by_code\<close> succeeds, its results
  hold every other code of the store and never the reference, the page stores exactly
  these results as its full list, and every page cut from that list, whatever the page
  number, is free of the reference: the exclusion is made on the full list, before any
  page is taken from it.
\<close>

theorem find_similar_excludes_reference:
  assumes "ref \<in> code ` set store"
  shows "\<exists>rs. search_by_code store ref = Inr rs
     \<and> ref \<notin> sref_code ` set rs
     \<and> sref_code ` set rs = code ` set store - {ref}
     \<and> allResults (findSimilarSREFs ref (similar_reply store ref) s) = rs
     \<and> (\<forall>t. allResults t = rs \<longrightarrow>
            ref \<notin> sref_code ` set (currentResults (displayCurrentPage t)))"
proof -
  from get_present[OF assms] obtain e where e: "get store ref = Inr e" by blast
  obtain ranked where r: "rank (embedding e) store (Some ref) = Inr ranked"
    by (simp add: rank_value)
  let ?rs = "List.map_filter (package store) ranked"
  have sbc: "search_by_code store ref = Inr ?rs"
    by (simp add: search_by_code_def e r)
  have rc: "fst ` set ranked = {c \<in> code ` set store. Some c \<noteq> Some ref}"
    using r by (rule set_ranked_codes)
  then have "\<forall>p\<in>set ranked. fst p \<in> code ` set store" by blast
  then have "map sref_code ?rs = map fst ranked" by (rule map_filter_package)
  then have "set (map sref_code ?rs) = set (map fst ranked)" by (rule arg_cong)
  then have codes: "sref_code ` set ?rs = code ` set store - {ref}"
    using rc by auto
  then have absent: "ref \<notin> sref_code ` set ?rs" by blast
  have shown: "allResults (findSimilarSREFs ref (similar_reply store ref) s) = ?rs"
    by (simp add: findSimilarSREFs_def findSimilarSREFs_complete_def findSimilarSREFs_try_def
          similar_reply_def sbc page_defs Let_def)
  have pages: "\<forall>t. allResults t = ?rs \<longrightarrow>
            ref \<notin> sref_code ` set (currentResults (displayCurrentPage t))"
  proof (intro allI impI)
    fix t :: SREFSearch
    assume "allResults t = ?rs"
    then have "set (currentResults (displayCurrentPage t)) \<subseteq> set ?rs"
      using currentResults_displayCurrentPage[of t] by simp
    then show "ref \<notin> sref_code ` set (currentResults (displayCurrentPage t))"
      using absent by blast
  qed
  show ?thesis using sbc absent codes shown pages by (intro exI[of _ ?rs] conjI)
qed

lemma search_by_code_store_abc:
  "search_by_code store_abc ''B'' =
     Inr [\<lparr>sref_code = ''C'', similarity = 1 / sqrt 2, summary = ''Key themes: sun (2)'',
           thumbnails = [''c1.png'', ''c2.png'']\<rparr>,
          \<lparr>sref_code = ''A'', similarity = 0, summary = ''Key themes: sky (2)'',
           thumbnails = [''a1.png'']\<rparr>]"
proof -
  have g: "get store_abc ''A'' = Inr entry_A" "get store_abc ''B'' = Inr entry_B"
    "get store_abc ''C'' = Inr entry_C"
    by (simp_all add: get_def store_abc_def store_abc_codes)
  have emb: "embedding entry_B = [0, 1]" by (simp add: entry_B_def)
  show ?thesis
    by (simp add: search_by_code_def g emb rank_store_abc package_def entry_A_def
          entry_C_def)
qed

lemma store_abc_has_B: "''B'' \<in> code ` set store_abc"
  by (simp add: store_abc_def store_abc_codes)

theorem find_similar_excludes_reference_witness:
  "''B'' \<in> code ` set store_abc
   \<and> map sref_code (projr (search_by_code store_abc ''B'')) = [''C'', ''A'']
   \<and> map sref_code (allResults (findSimilarSREFs ''B'' (similar_reply store_abc ''B'')
        (constructor page0))) = [''C'', ''A'']"
proof -
  from find_similar_excludes_reference[OF store_abc_has_B, of "constructor page0"]
  obtain rs where rs: "search_by_code store_abc ''B'' = Inr rs"
    and shown: "allResults (findSimilarSREFs ''B'' (similar_reply store_abc ''B'')
        (constructor page0)) = rs"
    by blast
  have "map sref_code rs = [''C'', ''A'']"
    using rs by (auto simp: search_by_code_store_abc)
  then show ?thesis using rs shown store_abc_has_B by simp
qed

end
